theory Spec2Isabelle
  imports Complex_Main "HOL-Library.Log_Nat"
begin

section \<open>Data model of the tracker\<close>

text \<open>
  A post is the dictionary built in \<open>collect_posts\<close>; its seven keys become the fields
  of a record and the nested \<open>engagement\<close> dictionary a record of its own. Python
  compares dictionaries by value, and so does equality on records. Python integers are
  unbounded (\<open>int\<close>); the floats produced by true division and by the graph metrics
  are idealised as rationals.
\<close>

record engagement =
  likes :: int
  shares :: int

record post =
  timestamp :: string
  platform :: string
  content :: string
  user :: string
  engagement :: engagement
  links :: "string list"
  hashtags :: "string list"

text \<open>
  The undirected graph of the graph library is its adjacency dictionary: every node
  maps to its neighbours, and both dictionaries keep insertion order. A self-loop
  \<open>u\<close>--\<open>u\<close> lists \<open>u\<close> among its own neighbours.
\<close>

type_synonym node = string
type_synonym graph = "(node \<times> node list) list"

record tracker =
  data :: "post list"
  network :: graph

datatype error = ZeroDivisionError | OverflowError | LibraryError string

definition init :: tracker where
  "init = \<lparr>data = [], network = []\<rparr>"

section \<open>Synthetic post generator\<close>

text \<open>Decimal rendering of an integer, as an f-string does it.\<close>

definition digit_char :: "nat \<Rightarrow> char" where
  "digit_char d = char_of (48 + d)"

fun str_nat :: "nat \<Rightarrow> string" where
  "str_nat n = (if n < 10 then [digit_char n] else str_nat (n div 10) @ [digit_char (n mod 10)])"

declare str_nat.simps [simp del]

definition str_int :: "int \<Rightarrow> string" where
  "str_int i = (if i < 0 then CHR ''-'' # str_nat (nat (- i)) else str_nat (nat i))"

text \<open>\<open>range(limit)\<close>: the integers from 0 below \<open>limit\<close>, none when \<open>limit \<le> 0\<close>.\<close>

definition range_py :: "int \<Rightarrow> int list" where
  "range_py limit = map int [0 ..< nat limit]"

text \<open>
  \<open>collect_posts\<close> replaces \<open>self.data\<close>. The clock is read once per post; \<open>now i\<close> is
  the text of the timestamp read while post \<open>i\<close> is built.
\<close>

definition make_post :: "(int \<Rightarrow> string) \<Rightarrow> string \<Rightarrow> string \<Rightarrow> int \<Rightarrow> post" where
  "make_post now keywords pf i =
     \<lparr>timestamp = now i,
      platform = pf,
      content = ''Sample post containing '' @ keywords,
      user = ''user_'' @ str_int i,
      engagement = \<lparr>likes = i * 10, shares = i * 2\<rparr>,
      links = [''http://example'' @ str_int i @ ''.com''],
      hashtags = [''#'' @ keywords, ''#sample'']\<rparr>"

definition collect_posts :: "(int \<Rightarrow> string) \<Rightarrow> string \<Rightarrow> string \<Rightarrow> int \<Rightarrow> tracker \<Rightarrow> tracker" where
  "collect_posts now keywords pf limit s =
     s\<lparr>data := map (make_post now keywords pf) (range_py limit)\<rparr>"

section \<open>Engagement aggregator\<close>

record engagement_stats =
  total_likes :: int
  total_shares :: int
  avg_engagement :: rat

text \<open>Python's \<open>/\<close> on integers: true division, raising on a zero divisor.\<close>

definition truediv :: "int \<Rightarrow> int \<Rightarrow> error + rat" where
  "truediv a b = (if b = 0 then Inl ZeroDivisionError else Inr (of_int a / of_int b))"

text \<open>
  \<open>analyze_engagement\<close> evaluates the three entries of the dictionary in order and
  returns it; it assigns to no field of \<open>self\<close>, so the state it returns is its argument.
  The data frame that it builds first from the batch is never read and is left out.
\<close>

definition analyze_engagement :: "tracker \<Rightarrow> (error + engagement_stats) \<times> tracker" where
  "analyze_engagement s =
     (let tl = sum_list (map (\<lambda>p. likes (engagement p)) (data s));
          ts = sum_list (map (\<lambda>p. shares (engagement p)) (data s))
      in case truediv (sum_list (map (\<lambda>p. likes (engagement p) + shares (engagement p)) (data s)))
                      (int (length (data s))) of
           Inl e \<Rightarrow> (Inl e, s)
         | Inr avg \<Rightarrow> (Inr \<lparr>total_likes = tl, total_shares = ts, avg_engagement = avg\<rparr>, s))"

section \<open>Graph library operations\<close>

text \<open>
  The operations of the graph library that the tracker calls, on the adjacency
  dictionary. \<open>add_node\<close> leaves a known node alone; \<open>add_edge\<close> adds both end
  points if absent and enters each in the other's neighbour dictionary. The degree of a
  node counts a self-loop twice. \<open>degree_centrality\<close> is 1 for every node of a graph
  with at most one node and the degree times \<open>1 / (n - 1)\<close> otherwise;
  \<open>graph_density\<close> is 0 without edges or with at most one node and
  \<open>2 m / (n (n - 1))\<close> otherwise.
\<close>

definition nodes :: "graph \<Rightarrow> node list" where
  "nodes g = map fst g"

definition add_node :: "node \<Rightarrow> graph \<Rightarrow> graph" where
  "add_node n g = (if n \<in> set (nodes g) then g else g @ [(n, [])])"

definition add_neighbour :: "node \<Rightarrow> node \<Rightarrow> graph \<Rightarrow> graph" where
  "add_neighbour u v g =
     map (\<lambda>(k, ns). if k = u then (k, if v \<in> set ns then ns else ns @ [v]) else (k, ns)) g"

definition add_edge :: "node \<Rightarrow> node \<Rightarrow> graph \<Rightarrow> graph" where
  "add_edge u v g = add_neighbour v u (add_neighbour u v (add_node v (add_node u g)))"

definition has_edge :: "node \<Rightarrow> node \<Rightarrow> graph \<Rightarrow> bool" where
  "has_edge u v g = (case map_of g u of None \<Rightarrow> False | Some ns \<Rightarrow> v \<in> set ns)"

definition degree_of :: "node \<times> node list \<Rightarrow> nat" where
  "degree_of e = length (snd e) + (if fst e \<in> set (snd e) then 1 else 0)"

definition degree :: "graph \<Rightarrow> node \<Rightarrow> nat" where
  "degree g n = (case map_of g n of None \<Rightarrow> 0 | Some ns \<Rightarrow> degree_of (n, ns))"

definition degree_centrality :: "graph \<Rightarrow> (node \<times> rat) list" where
  "degree_centrality g =
     (if length g \<le> 1 then map (\<lambda>e. (fst e, 1)) g
      else let s = 1 / (of_nat (length g) - 1)
           in map (\<lambda>e. (fst e, of_nat (degree_of e) * s)) g)"

definition number_of_edges :: "graph \<Rightarrow> nat" where
  "number_of_edges g = sum_list (map degree_of g) div 2"

definition graph_density :: "graph \<Rightarrow> rat" where
  "graph_density g =
     (let n = length g; m = number_of_edges g
      in if m = 0 \<or> n \<le> 1 then 0
         else of_nat m / (of_nat n * (of_nat n - 1)) * 2)"

text \<open>
  \<open>sorted(items, key = k, reverse = True)\<close> is stable: items with equal keys keep
  their order. Sorting by the negated key with the stable insertion sort does the same.
\<close>

definition sorted_reverse :: "('a \<Rightarrow> 'k::{linorder, uminus}) \<Rightarrow> 'a list \<Rightarrow> 'a list" where
  "sorted_reverse k xs = sort_key (\<lambda>x. - k x) xs"

section \<open>Co-occurrence graph builder and metrics\<close>

definition common_tags :: "post \<Rightarrow> post \<Rightarrow> string set" where
  "common_tags p other = set (hashtags p) \<inter> set (hashtags other)"

text \<open>The body of the inner loop, for one \<open>other_post\<close>.\<close>

definition connect :: "post \<Rightarrow> post \<Rightarrow> graph \<Rightarrow> graph" where
  "connect p other g =
     (if p \<noteq> other then
        (if common_tags p other \<noteq> {} then add_edge (user p) (user other) g else g)
      else g)"

text \<open>The body of the outer loop, for one \<open>post\<close> of the batch \<open>ps\<close>.\<close>

definition visit :: "post list \<Rightarrow> post \<Rightarrow> graph \<Rightarrow> graph" where
  "visit ps p g = fold (connect p) ps (add_node (user p) g)"

definition build_network :: "post list \<Rightarrow> graph \<Rightarrow> graph" where
  "build_network ps g = fold (visit ps) ps g"

record network_analysis =
  central_nodes :: "(node \<times> rat) list"
  community_count :: nat
  density :: rat

text \<open>
  \<open>analyze_network\<close> adds to \<open>self.network\<close>, the graph created in the constructor,
  and computes the metrics on it. The community detection of the graph library is not
  part of the repository: it is the parameter \<open>gmc\<close>, a function of the graph that
  returns a list of communities or raises. The graph has been updated when it is called,
  so a failure leaves the updated graph behind.
\<close>

definition analyze_network ::
  "(graph \<Rightarrow> error + node list list) \<Rightarrow> tracker \<Rightarrow> (error + network_analysis) \<times> tracker" where
  "analyze_network gmc s =
     (let s' = s\<lparr>network := build_network (data s) (network s)\<rparr>;
          centrality = degree_centrality (network s')
      in case gmc (network s') of
           Inl e \<Rightarrow> (Inl e, s')
         | Inr communities \<Rightarrow>
             (Inr \<lparr>central_nodes = take 10 (sorted_reverse snd centrality),
                   community_count = length communities,
                   density = graph_density (network s')\<rparr>, s'))"

text \<open>
  A partition to put in the place of \<open>gmc\<close> when an example is evaluated: every node
  a community of its own, the library's answer on a graph without edges.
\<close>

definition singleton_communities :: "graph \<Rightarrow> error + node list list" where
  "singleton_communities g = Inr (map (\<lambda>n. [n]) (nodes g))"

section \<open>Text and tag frequencies\<close>

text \<open>
  Post contents are taken to be ASCII text: a word character is a letter, a digit or the
  underscore, and \<open>lower\<close> maps \<open>A\<close>..\<open>Z\<close> to \<open>a\<close>..\<open>z\<close>.
\<close>

fun join_space :: "string list \<Rightarrow> string" where
  "join_space [] = []"
| "join_space [x] = x"
| "join_space (x # y # ys) = x @ '' '' @ join_space (y # ys)"

definition lower_char :: "char \<Rightarrow> char" where
  "lower_char c =
     (let n = (of_char c :: nat) in if 65 \<le> n \<and> n \<le> 90 then char_of (n + 32) else c)"

definition lower :: "string \<Rightarrow> string" where
  "lower s = map lower_char s"

definition is_word_char :: "char \<Rightarrow> bool" where
  "is_word_char c =
     (let n = (of_char c :: nat)
      in (48 \<le> n \<and> n \<le> 57) \<or> (65 \<le> n \<and> n \<le> 90) \<or> n = 95 \<or> (97 \<le> n \<and> n \<le> 122))"

text \<open>
  \<open>re.findall\<close> with the pattern of one or more word characters: the maximal runs of word characters, left to right.
  \<open>scan_words cur s\<close> has read the run \<open>cur\<close> and goes on with \<open>s\<close>.
\<close>

fun scan_words :: "string \<Rightarrow> string \<Rightarrow> string list" where
  "scan_words cur [] = (if cur = [] then [] else [cur])"
| "scan_words cur (c # cs) =
     (if is_word_char c then scan_words (cur @ [c]) cs
      else if cur = [] then scan_words [] cs
      else cur # scan_words [] cs)"

definition findall_words :: "string \<Rightarrow> string list" where
  "findall_words s = scan_words [] s"

text \<open>
  \<open>Counter(xs)\<close> counts the elements of \<open>xs\<close> one by one in a dictionary, so a
  key enters when it is first met. \<open>most_common(n)\<close> is the first \<open>n\<close> items of the
  stable sort by descending count.
\<close>

fun counter_add :: "'a \<Rightarrow> ('a \<times> int) list \<Rightarrow> ('a \<times> int) list" where
  "counter_add x [] = [(x, 1)]"
| "counter_add x ((k, c) # kvs) =
     (if k = x then (k, c + 1) # kvs else (k, c) # counter_add x kvs)"

definition counter :: "'a list \<Rightarrow> ('a \<times> int) list" where
  "counter xs = fold counter_add xs []"

definition most_common :: "nat \<Rightarrow> ('a \<times> int) list \<Rightarrow> ('a \<times> int) list" where
  "most_common n c = take n (sorted_reverse snd c)"

record narrative_analysis =
  common_words :: "(string \<times> int) list"
  common_hashtags :: "(string \<times> int) list"

definition all_words :: "post list \<Rightarrow> string list" where
  "all_words ps = findall_words (lower (join_space (map content ps)))"

definition all_hashtags :: "post list \<Rightarrow> string list" where
  "all_hashtags ps = concat (map hashtags ps)"

definition identify_narratives :: "tracker \<Rightarrow> narrative_analysis \<times> tracker" where
  "identify_narratives s =
     (let word_freq = most_common 20 (counter (all_words (data s)));
          hashtag_freq = most_common 10 (counter (all_hashtags (data s)))
      in (\<lparr>common_words = word_freq, common_hashtags = hashtag_freq\<rparr>, s))"

section \<open>Report assembler\<close>

record report =
  report_timestamp :: string
  data_points :: nat
  network_analysis :: network_analysis
  narrative_analysis :: narrative_analysis
  engagement_analysis :: engagement_stats

text \<open>
  \<open>generate_report\<close> runs the three analyses in order on the tracker; an exception in
  one of them ends it. \<open>now\<close> is the text of the clock reading.
\<close>

definition generate_report ::
  "string \<Rightarrow> (graph \<Rightarrow> error + node list list) \<Rightarrow> tracker \<Rightarrow> (error + report) \<times> tracker" where
  "generate_report now gmc s =
     (case analyze_network gmc s of
        (Inl e, s1) \<Rightarrow> (Inl e, s1)
      | (Inr na, s1) \<Rightarrow>
          (case identify_narratives s1 of
             (nar, s2) \<Rightarrow>
               (case analyze_engagement s2 of
                  (Inl e, s3) \<Rightarrow> (Inl e, s3)
                | (Inr ea, s3) \<Rightarrow>
                    (Inr \<lparr>report_timestamp = now,
                          data_points = length (data s3),
                          network_analysis = na,
                          narrative_analysis = nar,
                          engagement_analysis = ea\<rparr>, s3))))"

section \<open>Tabular exporter\<close>

text \<open>
  A file written through the CSV writer is the list of its rows, a row the list of its
  cells; a cell holds the value that the writer renders as text. Opening a file for
  writing empties it.
\<close>

datatype cell = Str string | EngagementDict engagement | StrList "string list"

type_synonym csv_file = "cell list list"
type_synonym filesystem = "string \<Rightarrow> csv_file option"

definition fieldnames :: "string list" where
  "fieldnames = [''timestamp'', ''platform'', ''content'', ''user'', ''engagement'', ''links'', ''hashtags'']"

definition post_get :: "post \<Rightarrow> string \<Rightarrow> cell option" where
  "post_get p k =
     (if k = ''timestamp'' then Some (Str (timestamp p))
      else if k = ''platform'' then Some (Str (platform p))
      else if k = ''content'' then Some (Str (content p))
      else if k = ''user'' then Some (Str (user p))
      else if k = ''engagement'' then Some (EngagementDict (engagement p))
      else if k = ''links'' then Some (StrList (links p))
      else if k = ''hashtags'' then Some (StrList (hashtags p))
      else None)"

definition dict_to_list :: "post \<Rightarrow> cell list" where
  "dict_to_list p = map (\<lambda>k. case post_get p k of Some c \<Rightarrow> c | None \<Rightarrow> Str []) fieldnames"

definition writerow :: "cell list \<Rightarrow> csv_file \<Rightarrow> csv_file" where
  "writerow r f = f @ [r]"

definition writeheader :: "csv_file \<Rightarrow> csv_file" where
  "writeheader f = writerow (map Str fieldnames) f"

definition writerows :: "post list \<Rightarrow> csv_file \<Rightarrow> csv_file" where
  "writerows ps f = fold writerow (map dict_to_list ps) f"

definition export_data :: "string \<Rightarrow> tracker \<Rightarrow> filesystem \<Rightarrow> filesystem" where
  "export_data filename s fs = fs(filename \<mapsto> writerows (data s) (writeheader []))"

section \<open>The same computations in double precision\<close>

text \<open>
  The analyses above compute with exact rationals. What the floating-point operations
  of the code return is given here. A float is the rational it denotes.
  \<open>float_round q\<close> is the double nearest to \<open>q\<close>: a mantissa of 53 bits, ties to the
  even mantissa, exponents from \<open>-1022\<close> on, subnormal numbers below.
  \<open>ilog2 q\<close> is the exponent of a positive \<open>q\<close>, the largest \<open>e\<close> with
  \<open>2 ^ e \<le> q\<close>.
\<close>

definition ilog2 :: "rat \<Rightarrow> int" where
  "ilog2 q = (if 1 \<le> q then bitlen \<lfloor>q\<rfloor> - 1 else - bitlen (\<lceil>1 / q\<rceil> - 1))"

definition round_half_even :: "rat \<Rightarrow> int" where
  "round_half_even m =
     (let f = \<lfloor>m\<rfloor>; d = m - of_int f
      in if d < 1 / 2 then f else if 1 / 2 < d then f + 1 else if even f then f else f + 1)"

definition float_round :: "rat \<Rightarrow> rat" where
  "float_round q =
     (if q = 0 then 0
      else let e = max (ilog2 \<bar>q\<bar>) (- 1022); u = 2 powi (e - 52)
           in sgn q * of_int (round_half_even (\<bar>q\<bar> / u)) * u)"

text \<open>
  The conversion of an integer to a float and the true division of two integers are
  correctly rounded, and raise \<open>OverflowError\<close> when the result is too large for a
  double: when it would round to \<open>2 ^ 1024\<close> or more, that is from
  \<open>2 ^ 1024 - 2 ^ 970\<close> on.
\<close>

definition py_float :: "rat \<Rightarrow> error + rat" where
  "py_float q = (if 2 ^ 1024 - 2 ^ 970 \<le> \<bar>q\<bar> then Inl OverflowError else Inr (float_round q))"

definition float_of_int :: "int \<Rightarrow> error + rat" where
  "float_of_int i = py_float (of_int i)"

definition truediv_float :: "int \<Rightarrow> int \<Rightarrow> error + rat" where
  "truediv_float a b = (if b = 0 then Inl ZeroDivisionError else py_float (of_int a / of_int b))"

text \<open>
  \<open>analyze_engagement\<close> with the division as the interpreter performs it: the sums
  are sums of integers and exact, the average is the quotient of two integers.
\<close>

definition analyze_engagement_float :: "tracker \<Rightarrow> (error + engagement_stats) \<times> tracker" where
  "analyze_engagement_float s =
     (let tl = sum_list (map (\<lambda>p. likes (engagement p)) (data s));
          ts = sum_list (map (\<lambda>p. shares (engagement p)) (data s))
      in case truediv_float (sum_list (map (\<lambda>p. likes (engagement p) + shares (engagement p)) (data s)))
                            (int (length (data s))) of
           Inl e \<Rightarrow> (Inl e, s)
         | Inr avg \<Rightarrow> (Inr \<lparr>total_likes = tl, total_shares = ts, avg_engagement = avg\<rparr>, s))"

text \<open>
  \<open>degree_centrality\<close> of the graph library with its float operations: with more
  than one node it computes \<open>s = 1.0 / (len(G) - 1.0)\<close> and then \<open>d * s\<close> for the
  degree \<open>d\<close> of every node. The node count and each degree are integers and are
  converted to floats first. The difference is at least 1, the quotient at most 1 and
  the product at most the degree, so these three operations neither divide by zero nor
  leave the range of the doubles.
\<close>

fun centrality_items :: "rat \<Rightarrow> graph \<Rightarrow> error + (node \<times> rat) list" where
  "centrality_items s [] = Inr []"
| "centrality_items s (e # es) =
     (case float_of_int (int (degree_of e)) of
        Inl err \<Rightarrow> Inl err
      | Inr d \<Rightarrow>
          (case centrality_items s es of
             Inl err \<Rightarrow> Inl err
           | Inr cs \<Rightarrow> Inr ((fst e, float_round (d * s)) # cs)))"

definition degree_centrality_float :: "graph \<Rightarrow> error + (node \<times> rat) list" where
  "degree_centrality_float g =
     (if length g \<le> 1 then Inr (map (\<lambda>e. (fst e, 1)) g)
      else case float_of_int (int (length g)) of
             Inl err \<Rightarrow> Inl err
           | Inr n \<Rightarrow> centrality_items (float_round (1 / float_round (n - 1))) g)"

section \<open>Notions used to state the properties\<close>

text \<open>
  \<open>first_index xs x\<close> is the position at which \<open>x\<close> is first met in \<open>xs\<close>.
  \<open>ranked_before xs a b\<close>: the bin \<open>a\<close> has the larger count, or the same count
  and a key that is met first.
\<close>

definition first_index :: "'a list \<Rightarrow> 'a \<Rightarrow> nat" where
  "first_index xs x = length (takeWhile (\<lambda>y. y \<noteq> x) xs)"

definition ranked_before :: "'a list \<Rightarrow> 'a \<times> int \<Rightarrow> 'a \<times> int \<Rightarrow> bool" where
  "ranked_before xs a b =
     (snd b < snd a \<or> (snd a = snd b \<and> first_index xs (fst a) < first_index xs (fst b)))"

text \<open>
  A graph without self-loops whose adjacency dictionary is well formed: every node is
  entered once, and the neighbours of a node are different nodes of the graph, each
  entered once. The same with self-loops allowed (\<open>wf_graph\<close>). A batch in which no
  two different posts of one author share a hashtag.
\<close>

definition simple_graph :: "graph \<Rightarrow> bool" where
  "simple_graph g =
     (distinct (nodes g) \<and>
      (\<forall>e \<in> set g. distinct (snd e) \<and> fst e \<notin> set (snd e) \<and> set (snd e) \<subseteq> set (nodes g)))"

definition wf_graph :: "graph \<Rightarrow> bool" where
  "wf_graph g =
     (distinct (nodes g) \<and> (\<forall>e \<in> set g. distinct (snd e) \<and> set (snd e) \<subseteq> set (nodes g)))"

definition no_shared_tags_within_author :: "post list \<Rightarrow> bool" where
  "no_shared_tags_within_author ps =
     (\<forall>p \<in> set ps. \<forall>q \<in> set ps. p \<noteq> q \<and> common_tags p q \<noteq> {} \<longrightarrow> user p \<noteq> user q)"

text \<open>
  A post and a report without their timestamps: two posts, or two outcomes of
  \<open>generate_report\<close>, agree in everything but the timestamps when these are equal.
\<close>

definition untimed :: "post \<Rightarrow> post" where
  "untimed p = p\<lparr>timestamp := []\<rparr>"

definition untimed_report :: "error + report \<Rightarrow> error + report" where
  "untimed_report x = (case x of Inl e \<Rightarrow> Inl e | Inr r \<Rightarrow> Inr (r\<lparr>report_timestamp := []\<rparr>))"

text \<open>Posts for the examples: an author, a text and hashtags.\<close>

definition sample_post :: "string \<Rightarrow> string \<Rightarrow> string list \<Rightarrow> post" where
  "sample_post u c hs =
     \<lparr>timestamp = ''2024-01-01T00:00:00'', platform = ''twitter'', content = c, user = u,
      engagement = \<lparr>likes = 3, shares = 1\<rparr>, links = [], hashtags = hs\<rparr>"

definition clock :: "int \<Rightarrow> string" where
  "clock i = ''2024-01-01T00:00:0'' @ str_int i"

section \<open>The graph builder connects posts that share a hashtag\<close>

lemma map_of_absent: "n \<notin> set (nodes g) \<Longrightarrow> map_of g n = None"
  by (simp add: nodes_def map_of_eq_None_iff)

lemma map_of_add_node: "map_of (add_node n g) u = (if u = n \<and> n \<notin> set (nodes g) then Some [] else map_of g u)"
  by (auto simp: add_node_def map_add_def map_of_absent split: option.splits)

lemma map_of_add_neighbour:
  "map_of (add_neighbour u v g) x = map_option (\<lambda>ns. if x = u then (if v \<in> set ns then ns else ns @ [v]) else ns) (map_of g x)"
  by (induction g) (auto simp: add_neighbour_def)

lemma nodes_add_neighbour: "nodes (add_neighbour u v g) = nodes g"
  by (induction g) (auto simp: add_neighbour_def nodes_def)

lemma nodes_add_node: "set (nodes (add_node n g)) = insert n (set (nodes g))"
  by (auto simp: add_node_def nodes_def)

lemma nodes_add_edge: "set (nodes (add_edge u v g)) = insert u (insert v (set (nodes g)))"
  by (auto simp: add_edge_def nodes_add_neighbour nodes_add_node)

lemma has_edge_add_node: "has_edge a b g \<Longrightarrow> has_edge a b (add_node n g)"
proof (cases "n \<in> set (nodes g)")
  case True then show "has_edge a b g \<Longrightarrow> ?thesis" by (simp add: add_node_def)
next
  case False
  assume e: "has_edge a b g"
  with False have "a \<noteq> n" by (auto simp: has_edge_def map_of_absent)
  with e show ?thesis by (simp add: has_edge_def map_of_add_node)
qed

lemma has_edge_add_neighbour: "has_edge a b g \<Longrightarrow> has_edge a b (add_neighbour u v g)"
  by (auto simp: has_edge_def map_of_add_neighbour split: option.splits)

lemma has_edge_add_edge_mono: "has_edge a b g \<Longrightarrow> has_edge a b (add_edge u v g)"
  by (simp add: add_edge_def has_edge_add_node has_edge_add_neighbour)

lemma map_of_nodes: "n \<in> set (nodes g) \<Longrightarrow> \<exists>ns. map_of g n = Some ns"
  by (metis nodes_def map_of_eq_None_iff not_Some_eq set_map)

lemma has_edge_new_neighbour: "u \<in> set (nodes g) \<Longrightarrow> has_edge u v (add_neighbour u v g)"
  using map_of_nodes[of u g] by (auto simp: has_edge_def map_of_add_neighbour)

lemma has_edge_add_edge: "has_edge u v (add_edge u v g) \<and> has_edge v u (add_edge u v g)"
proof -
  let ?g = "add_node v (add_node u g)"
  have u: "u \<in> set (nodes ?g)" and v: "v \<in> set (nodes ?g)"
    by (simp_all add: nodes_add_node)
  have "has_edge u v (add_neighbour u v ?g)"
    using u by (rule has_edge_new_neighbour)
  then have 1: "has_edge u v (add_edge u v g)"
    unfolding add_edge_def by (rule has_edge_add_neighbour)
  have "v \<in> set (nodes (add_neighbour u v ?g))"
    using v by (simp add: nodes_add_neighbour)
  then have 2: "has_edge v u (add_edge u v g)"
    unfolding add_edge_def by (rule has_edge_new_neighbour)
  from 1 2 show ?thesis ..
qed

lemma nodes_connect: "set (nodes g) \<subseteq> set (nodes (connect p q g))"
  by (auto simp: connect_def nodes_add_edge)

lemma has_edge_connect_mono: "has_edge a b g \<Longrightarrow> has_edge a b (connect p q g)"
  by (simp add: connect_def has_edge_add_edge_mono)

lemma nodes_fold_connect: "set (nodes g) \<subseteq> set (nodes (fold (connect p) qs g))"
proof (induction qs arbitrary: g)
  case Nil show ?case by simp
next
  case (Cons q qs)
  have "set (nodes g) \<subseteq> set (nodes (connect p q g))" by (rule nodes_connect)
  also have "\<dots> \<subseteq> set (nodes (fold (connect p) qs (connect p q g)))" by (rule Cons.IH)
  finally show ?case by simp
qed

lemma has_edge_fold_connect_mono: "has_edge a b g \<Longrightarrow> has_edge a b (fold (connect p) qs g)"
  by (induction qs arbitrary: g) (simp_all add: has_edge_connect_mono)

lemma has_edge_fold_connect:
  "q \<in> set qs \<Longrightarrow> p \<noteq> q \<Longrightarrow> common_tags p q \<noteq> {} \<Longrightarrow>
   has_edge (user p) (user q) (fold (connect p) qs g) \<and> has_edge (user q) (user p) (fold (connect p) qs g)"
proof (induction qs arbitrary: g)
  case Nil then show ?case by simp
next
  case (Cons r qs)
  show ?case
  proof (cases "r = q")
    case True
    with Cons.prems have "connect p r g = add_edge (user p) (user q) g"
      by (simp add: connect_def)
    then show ?thesis
      using has_edge_add_edge[of "user p" "user q" g]
      by (simp add: has_edge_fold_connect_mono)
  next
    case False
    with Cons.prems have "q \<in> set qs" by simp
    from Cons.IH[OF this Cons.prems(2,3)] show ?thesis by simp
  qed
qed

lemma nodes_visit: "insert (user p) (set (nodes g)) \<subseteq> set (nodes (visit ps p g))"
  unfolding visit_def using nodes_fold_connect[of "add_node (user p) g" p ps]
  by (simp add: nodes_add_node)

lemma has_edge_visit_mono: "has_edge a b g \<Longrightarrow> has_edge a b (visit ps p g)"
  by (simp add: visit_def has_edge_fold_connect_mono has_edge_add_node)

lemma nodes_fold_visit: "set (nodes g) \<union> user ` set qs \<subseteq> set (nodes (fold (visit ps) qs g))"
proof (induction qs arbitrary: g)
  case Nil show ?case by simp
next
  case (Cons q qs)
  have "insert (user q) (set (nodes g)) \<subseteq> set (nodes (visit ps q g))" by (rule nodes_visit)
  moreover have "set (nodes (visit ps q g)) \<union> user ` set qs \<subseteq> set (nodes (fold (visit ps) qs (visit ps q g)))"
    by (rule Cons.IH)
  ultimately show ?case by auto
qed

lemma has_edge_fold_visit_mono: "has_edge a b g \<Longrightarrow> has_edge a b (fold (visit ps) qs g)"
  by (induction qs arbitrary: g) (simp_all add: has_edge_visit_mono)

lemma has_edge_fold_visit:
  "p \<in> set qs \<Longrightarrow> q \<in> set ps \<Longrightarrow> p \<noteq> q \<Longrightarrow> common_tags p q \<noteq> {} \<Longrightarrow>
   has_edge (user p) (user q) (fold (visit ps) qs g) \<and> has_edge (user q) (user p) (fold (visit ps) qs g)"
proof (induction qs arbitrary: g)
  case Nil then show ?case by simp
next
  case (Cons r qs)
  show ?case
  proof (cases "r = p")
    case True
    have "has_edge (user p) (user q) (visit ps p g) \<and> has_edge (user q) (user p) (visit ps p g)"
      unfolding visit_def using Cons.prems(2,3,4) by (rule has_edge_fold_connect)
    then show ?thesis using True by (simp add: has_edge_fold_visit_mono)
  next
    case False
    with Cons.prems have "p \<in> set qs" by simp
    from Cons.IH[OF this Cons.prems(2,3,4)] show ?thesis by simp
  qed
qed

lemma build_network_nodes: "set (nodes g) \<union> user ` set ps \<subseteq> set (nodes (build_network ps g))"
  unfolding build_network_def by (rule nodes_fold_visit)

lemma build_network_keeps_edges: "has_edge a b g \<Longrightarrow> has_edge a b (build_network ps g)"
  unfolding build_network_def by (rule has_edge_fold_visit_mono)

lemma build_network_edges:
  "p \<in> set ps \<Longrightarrow> q \<in> set ps \<Longrightarrow> p \<noteq> q \<Longrightarrow> common_tags p q \<noteq> {} \<Longrightarrow>
   has_edge (user p) (user q) (build_network ps g) \<and> has_edge (user q) (user p) (build_network ps g)"
  unfolding build_network_def by (rule has_edge_fold_visit)

lemma network_analyze_network: "network (snd (analyze_network gmc s)) = build_network (data s) (network s)"
  by (simp add: analyze_network_def Let_def split: sum.splits)

lemma data_analyze_network: "data (snd (analyze_network gmc s)) = data s"
  by (simp add: analyze_network_def Let_def split: sum.splits)

section \<open>Counting and ranking\<close>

lemma counter_snoc: "counter (xs @ [x]) = counter_add x (counter xs)"
  by (simp add: counter_def)

lemma keys_counter_add:
  "map fst (counter_add x kvs) = (if x \<in> fst ` set kvs then map fst kvs else map fst kvs @ [x])"
  by (induction kvs) force+

lemma sum_counter_add: "sum_list (map snd (counter_add x kvs)) = sum_list (map snd kvs) + 1"
  by (induction kvs) auto

lemma map_of_counter_add:
  "map_of (counter_add x kvs) k =
     (if k = x then Some (case map_of kvs x of None \<Rightarrow> 1 | Some c \<Rightarrow> c + 1) else map_of kvs k)"
  by (induction kvs) auto

lemma counter_sum: "sum_list (map snd (counter xs)) = int (length xs)"
  by (induction xs rule: rev_induct) (simp_all add: counter_snoc sum_counter_add, simp add: counter_def)

lemma counter_keys: "set (map fst (counter xs)) = set xs"
proof (induction xs rule: rev_induct)
  case Nil show ?case by (simp add: counter_def)
next
  case (snoc x xs)
  then show ?case by (auto simp: counter_snoc keys_counter_add)
qed

lemma counter_distinct: "distinct (map fst (counter xs))"
proof (induction xs rule: rev_induct)
  case Nil show ?case by (simp add: counter_def)
next
  case (snoc x xs)
  then show ?case by (auto simp: counter_snoc keys_counter_add)
qed

lemma counter_map_of:
  "map_of (counter xs) k = (if k \<in> set xs then Some (int (count_list xs k)) else None)"
proof (induction xs rule: rev_induct)
  case Nil show ?case by (simp add: counter_def)
next
  case (snoc x xs)
  then show ?case by (auto simp: counter_snoc map_of_counter_add)
qed

lemma counter_counts: "(k, c) \<in> set (counter xs) \<Longrightarrow> c = int (count_list xs k) \<and> 0 < c"
proof -
  assume m: "(k, c) \<in> set (counter xs)"
  then have "map_of (counter xs) k = Some c" using counter_distinct[of xs] by simp
  moreover from m have "k \<in> set xs" using counter_keys[of xs] by force
  ultimately show ?thesis using count_list_0_iff[of xs k] by (auto simp: counter_map_of)
qed

lemma counter_length: "length (counter xs) = card (set xs)"
  using counter_distinct[of xs] counter_keys[of xs] distinct_card[of "map fst (counter xs)"] by simp

lemma first_index_less: "x \<in> set xs \<Longrightarrow> first_index xs x < length xs"
  by (induction xs) (auto simp: first_index_def)

lemma first_index_snoc_old: "k \<in> set xs \<Longrightarrow> first_index (xs @ [x]) k = first_index xs k"
  by (simp add: first_index_def takeWhile_append1)

lemma first_index_snoc_new: "x \<notin> set xs \<Longrightarrow> first_index (xs @ [x]) x = length xs"
  unfolding first_index_def by (subst takeWhile_append2) auto

lemma counter_first_order:
  "sorted_wrt (\<lambda>a b. first_index xs a < first_index xs b) (map fst (counter xs))"
proof (induction xs rule: rev_induct)
  case Nil show ?case by (simp add: counter_def)
next
  case (snoc x xs)
  have old: "sorted_wrt (\<lambda>a b. first_index (xs @ [x]) a < first_index (xs @ [x]) b) (map fst (counter xs))"
  proof (rule sorted_wrt_mono_rel[OF _ snoc.IH])
    fix a b assume "a \<in> set (map fst (counter xs))" "b \<in> set (map fst (counter xs))"
      and lt: "first_index xs a < first_index xs b"
    then have "a \<in> set xs" "b \<in> set xs" by (simp_all only: counter_keys)
    with lt show "first_index (xs @ [x]) a < first_index (xs @ [x]) b"
      by (simp add: first_index_snoc_old)
  qed
  show ?case
  proof (cases "x \<in> set xs")
    case True
    then show ?thesis using old counter_keys[of xs] by (simp add: counter_snoc keys_counter_add)
  next
    case False
    then have "\<forall>k\<in>set xs. first_index (xs @ [x]) k < first_index (xs @ [x]) x"
      by (simp add: first_index_snoc_old first_index_snoc_new first_index_less)
    then show ?thesis using old False counter_keys[of xs]
      by (simp add: counter_snoc keys_counter_add sorted_wrt_append)
  qed
qed

lemma insort_key_ranked:
  fixes f :: "'a \<Rightarrow> int" and g :: "'a \<Rightarrow> nat"
  assumes "sorted_wrt (\<lambda>a b. f a < f b \<or> (f a = f b \<and> g a < g b)) ys"
    and "\<forall>y\<in>set ys. g x < g y"
  shows "sorted_wrt (\<lambda>a b. f a < f b \<or> (f a = f b \<and> g a < g b)) (insort_key f x ys)"
  using assms by (induction ys) (auto simp: set_insort_key)

lemma sort_key_ranked:
  fixes f :: "'a \<Rightarrow> int" and g :: "'a \<Rightarrow> nat"
  assumes "sorted_wrt (\<lambda>a b. g a < g b) xs"
  shows "sorted_wrt (\<lambda>a b. f a < f b \<or> (f a = f b \<and> g a < g b)) (sort_key f xs)"
  using assms
proof (induction xs)
  case Nil show ?case by simp
next
  case (Cons x xs)
  then show ?case by (simp add: insort_key_ranked)
qed

lemma most_common_ranked: "sorted_wrt (ranked_before xs) (most_common n (counter xs))"
proof -
  have "sorted_wrt (\<lambda>a b. first_index xs (fst a) < first_index xs (fst b)) (counter xs)"
    using counter_first_order[of xs] by (simp add: sorted_wrt_map)
  then have "sorted_wrt (\<lambda>a b. - snd a < - snd b \<or> (- snd a = - snd b \<and> first_index xs (fst a) < first_index xs (fst b)))
               (sort_key (\<lambda>x. - snd x) (counter xs))"
    by (rule sort_key_ranked[where f = "\<lambda>x. - snd x" and g = "\<lambda>a. first_index xs (fst a)"])
  then have "sorted_wrt (ranked_before xs) (sorted_reverse snd (counter xs))"
    unfolding sorted_reverse_def ranked_before_def
    by (rule sorted_wrt_mono_rel[rotated]) auto
  then show ?thesis unfolding most_common_def by (rule sorted_wrt_take)
qed

lemma most_common_bins: "(k, c) \<in> set (most_common n (counter xs)) \<Longrightarrow> c = int (count_list xs k) \<and> 0 < c"
proof -
  assume "(k, c) \<in> set (most_common n (counter xs))"
  then have "(k, c) \<in> set (counter xs)"
    unfolding most_common_def sorted_reverse_def by (auto dest: in_set_takeD)
  then show ?thesis by (rule counter_counts)
qed

lemma sum_take_le:
  fixes cs :: "int list"
  shows "\<forall>c\<in>set cs. 0 \<le> c \<Longrightarrow> sum_list (take n cs) \<le> sum_list cs"
proof -
  assume nn: "\<forall>c\<in>set cs. 0 \<le> c"
  then have "0 \<le> sum_list (drop n cs)" by (auto intro!: sum_list_nonneg dest: in_set_dropD)
  moreover have "sum_list cs = sum_list (take n cs) + sum_list (drop n cs)"
    by (metis append_take_drop_id sum_list_append)
  ultimately show ?thesis by simp
qed

lemma sum_insort_key:
  "sum_list (map snd (insort_key f x (ys :: ('a \<times> int) list))) = snd x + sum_list (map snd ys)"
  by (induction ys) auto

lemma sum_sorted_reverse: "sum_list (map snd (sorted_reverse snd (c :: ('a \<times> int) list))) = sum_list (map snd c)"
  unfolding sorted_reverse_def by (induction c) (simp_all add: sum_insort_key)

lemma most_common_sum_le: "sum_list (map snd (most_common n (counter xs))) \<le> int (length xs)"
proof -
  have "\<forall>c\<in>set (map snd (sorted_reverse snd (counter xs))). 0 \<le> c"
    using counter_counts[of _ _ xs] by (fastforce simp: sorted_reverse_def)
  then have "sum_list (take n (map snd (sorted_reverse snd (counter xs)))) \<le> sum_list (map snd (sorted_reverse snd (counter xs)))"
    by (rule sum_take_le)
  then show ?thesis by (simp add: most_common_def take_map sum_sorted_reverse counter_sum)
qed

lemma most_common_sum_all: "card (set xs) \<le> n \<Longrightarrow> sum_list (map snd (most_common n (counter xs))) = int (length xs)"
  by (simp add: most_common_def sorted_reverse_def counter_length sum_sorted_reverse[unfolded sorted_reverse_def] counter_sum)

section \<open>Engagement aggregator: failure and totals\<close>

lemma sum_range_py: "sum_list (map f (range_py n)) = (\<Sum>i = 0..<nat n. f (int i))"
  by (simp add: range_py_def comp_def sum_list_sum_nth atLeast0LessThan)

text \<open>
  Claim C3. \<open>analyze_engagement\<close> fails with a division-by-zero error when and only
  when the post batch is empty; for every non-empty batch it returns the total of the
  likes, the total of the shares and the average of likes plus shares per post.
\<close>

theorem analyze_engagement_fails_iff_empty:
  "(fst (analyze_engagement s) = Inl ZeroDivisionError \<longleftrightarrow> data s = []) \<and>
   (data s \<noteq> [] \<longrightarrow>
      fst (analyze_engagement s) =
        Inr \<lparr>total_likes = sum_list (map (\<lambda>p. likes (engagement p)) (data s)),
             total_shares = sum_list (map (\<lambda>p. shares (engagement p)) (data s)),
             avg_engagement =
               of_int (sum_list (map (\<lambda>p. likes (engagement p) + shares (engagement p)) (data s)))
                 / of_nat (length (data s))\<rparr>)"
  by (simp add: analyze_engagement_def truediv_def Let_def)

theorem analyze_engagement_fails_iff_empty_witness:
  "fst (analyze_engagement init) = Inl ZeroDivisionError \<and>
   fst (analyze_engagement \<lparr>data = [sample_post ''a'' ''x'' [], sample_post ''b'' ''y'' []], network = []\<rparr>) =
     Inr \<lparr>total_likes = 6, total_shares = 2, avg_engagement = 4\<rparr>"
  using analyze_engagement_fails_iff_empty [of init]
    analyze_engagement_fails_iff_empty [of "\<lparr>data = [sample_post ''a'' ''x'' [], sample_post ''b'' ''y'' []], network = []\<rparr>"]
  by (simp add: init_def sample_post_def)

text \<open>
  Claim C4. For every count \<open>n \<ge> 1\<close>, after \<open>collect_posts\<close> with count \<open>n\<close> the
  engagement aggregates are the sums of \<open>10 i\<close> and of \<open>2 i\<close> for \<open>i\<close> from 0 below
  \<open>n\<close>, and the average is the sum of \<open>12 i\<close> divided by \<open>n\<close>; for \<open>n = 5\<close>
  that is 100, 20 and 24.
\<close>

theorem collect_posts_engagement_totals:
  "1 \<le> n \<Longrightarrow>
   fst (analyze_engagement (collect_posts now keywords pf n s)) =
     Inr \<lparr>total_likes = (\<Sum>i = 0..<nat n. 10 * int i),
          total_shares = (\<Sum>i = 0..<nat n. 2 * int i),
          avg_engagement = of_int (\<Sum>i = 0..<nat n. 12 * int i) / of_int n\<rparr>"
proof -
  assume n: "1 \<le> n"
  let ?ps = "map (make_post now keywords pf) (range_py n)"
  have l: "sum_list (map (\<lambda>p. likes (engagement p)) ?ps) = (\<Sum>i = 0..<nat n. 10 * int i)"
    by (simp add: comp_def make_post_def sum_range_py mult.commute)
  have sh: "sum_list (map (\<lambda>p. shares (engagement p)) ?ps) = (\<Sum>i = 0..<nat n. 2 * int i)"
    by (simp add: comp_def make_post_def sum_range_py mult.commute)
  have b: "sum_list (map (\<lambda>p. likes (engagement p) + shares (engagement p)) ?ps) = (\<Sum>i = 0..<nat n. 12 * int i)"
    by (simp add: comp_def make_post_def sum_range_py)
  have len: "int (length ?ps) = n" using n by (simp add: range_py_def)
  have ne: "n \<noteq> 0" using n by simp
  have d: "data (collect_posts now keywords pf n s) = ?ps"
    by (simp add: collect_posts_def)
  show ?thesis
    unfolding analyze_engagement_def Let_def truediv_def d l sh b len
    using ne by simp
qed

theorem collect_posts_engagement_totals_witness:
  "(1::int) \<le> 5 \<and>
   fst (analyze_engagement (collect_posts clock ''election2024'' ''twitter'' 5 init)) =
     Inr \<lparr>total_likes = 100, total_shares = 20, avg_engagement = 24\<rparr>"
  using collect_posts_engagement_totals [of 5 clock "''election2024''" "''twitter''" init]
  by (simp add: eval_nat_numeral)

section \<open>Readers leave the tracker alone\<close>

text \<open>
  Claim C9. \<open>identify_narratives\<close> and \<open>analyze_engagement\<close> only read: for every
  tracker state, each of them leaves the post batch and the graph as they were, also
  when \<open>analyze_engagement\<close> fails.
\<close>

theorem narratives_and_engagement_read_only:
  "snd (identify_narratives s) = s \<and> snd (analyze_engagement s) = s \<and>
   data (snd (identify_narratives s)) = data s \<and> network (snd (identify_narratives s)) = network s \<and>
   data (snd (analyze_engagement s)) = data s \<and> network (snd (analyze_engagement s)) = network s"
  by (simp add: identify_narratives_def analyze_engagement_def Let_def split: sum.splits)

theorem narratives_and_engagement_read_only_witness:
  "snd (identify_narratives (collect_posts clock ''election2024'' ''twitter'' 2 init)) =
     collect_posts clock ''election2024'' ''twitter'' 2 init \<and>
   snd (analyze_engagement init) = init"
  using narratives_and_engagement_read_only [of "collect_posts clock ''election2024'' ''twitter'' 2 init"]
    narratives_and_engagement_read_only [of init]
  by simp

section \<open>Tabular exporter: rows written\<close>

lemma fold_writerow: "fold writerow rs f = f @ rs"
  by (induction rs arbitrary: f) (simp_all add: writerow_def)

text \<open>
  Claim C8. For every batch of \<open>M\<close> posts, also the empty one, \<open>export_data\<close> leaves
  in the file exactly one header row followed by \<open>M\<close> data rows, whatever the file
  held before; the header columns are timestamp, platform, content, user, engagement,
  links, hashtags in that order, and every data row has these seven cells.
\<close>

theorem export_data_rows:
  "export_data filename s fs filename =
     Some ([Str ''timestamp'', Str ''platform'', Str ''content'', Str ''user'',
            Str ''engagement'', Str ''links'', Str ''hashtags''] # map dict_to_list (data s)) \<and>
   length (map dict_to_list (data s)) = length (data s) \<and>
   (\<forall>r \<in> set (map dict_to_list (data s)). length r = 7)"
  by (simp add: export_data_def writerows_def writeheader_def fold_writerow writerow_def fieldnames_def dict_to_list_def)

theorem export_data_rows_witness:
  "export_data ''misinfo_analysis.csv'' init Map.empty ''misinfo_analysis.csv'' =
     Some [[Str ''timestamp'', Str ''platform'', Str ''content'', Str ''user'',
            Str ''engagement'', Str ''links'', Str ''hashtags'']] \<and>
   map_option length (export_data ''misinfo_analysis.csv''
       \<lparr>data = [sample_post ''a'' ''x'' [], sample_post ''b'' ''y'' []], network = []\<rparr>
       [''misinfo_analysis.csv'' \<mapsto> [[Str ''old'']]] ''misinfo_analysis.csv'') = Some 3"
  using export_data_rows [of "''misinfo_analysis.csv''" init Map.empty]
    export_data_rows [of "''misinfo_analysis.csv''" "\<lparr>data = [sample_post ''a'' ''x'' [], sample_post ''b'' ''y'' []], network = []\<rparr>"
       "[''misinfo_analysis.csv'' \<mapsto> [[Str ''old'']]]"]
  by (simp add: init_def)

section \<open>Graph builder: edges between posts that share a hashtag\<close>

text \<open>
  Claim C1. For every post batch and every two posts of it that differ (as the code
  compares them, by value) and whose hashtag sets intersect, the graph that
  \<open>analyze_network\<close> leaves in the tracker has an edge between the two author ids, in
  both directions, and both author ids are nodes. A post is never compared against
  itself: the loop body does nothing for the pair of a post with itself, and a batch of
  one post only adds its author as a node.
\<close>

theorem analyze_network_connects_sharing_posts:
  assumes "p \<in> set (data s)" and "q \<in> set (data s)" and "p \<noteq> q" and "common_tags p q \<noteq> {}"
  shows "has_edge (user p) (user q) (network (snd (analyze_network gmc s))) \<and>
         has_edge (user q) (user p) (network (snd (analyze_network gmc s))) \<and>
         user p \<in> set (nodes (network (snd (analyze_network gmc s)))) \<and>
         user q \<in> set (nodes (network (snd (analyze_network gmc s)))) \<and>
         connect p p g = g \<and>
         build_network [p] g = add_node (user p) g"
proof -
  let ?G = "build_network (data s) (network s)"
  have e: "has_edge (user p) (user q) ?G \<and> has_edge (user q) (user p) ?G"
    using assms by (rule build_network_edges)
  have "user ` set (data s) \<subseteq> set (nodes ?G)"
    using build_network_nodes[of "network s" "data s"] by simp
  with assms(1,2) have n: "user p \<in> set (nodes ?G) \<and> user q \<in> set (nodes ?G)" by auto
  have c: "connect p p g = g" by (simp add: connect_def)
  have "build_network [p] g = add_node (user p) g"
    by (simp add: build_network_def visit_def connect_def)
  with e n c show ?thesis by (simp add: network_analyze_network)
qed

theorem analyze_network_connects_sharing_posts_witness:
  "has_edge ''alice'' ''bob''
     (network (snd (analyze_network singleton_communities
        \<lparr>data = [sample_post ''alice'' ''x'' [''#a'', ''#b''], sample_post ''bob'' ''y'' [''#b'']],
         network = []\<rparr>))) \<and>
   has_edge ''bob'' ''alice''
     (network (snd (analyze_network singleton_communities
        \<lparr>data = [sample_post ''alice'' ''x'' [''#a'', ''#b''], sample_post ''bob'' ''y'' [''#b'']],
         network = []\<rparr>)))"
  using analyze_network_connects_sharing_posts
    [of "sample_post ''alice'' ''x'' [''#a'', ''#b'']"
        "\<lparr>data = [sample_post ''alice'' ''x'' [''#a'', ''#b''], sample_post ''bob'' ''y'' [''#b'']],
         network = []\<rparr>"
        "sample_post ''bob'' ''y'' [''#b'']" singleton_communities "[]"]
  by (simp add: sample_post_def common_tags_def)

section \<open>Word and hashtag frequencies\<close>

text \<open>
  Claim C7, as the code has it. For every post batch, the word and hashtag frequency
  lists of \<open>identify_narratives\<close> are sorted by descending count, bins of equal count
  in the order in which their keys are first met; every bin holds the number of
  occurrences of its key in the input; there are at most 20 word bins and 10 hashtag
  bins, so the counts of the returned bins sum to at most the number of occurrences in
  the input, and to exactly that number when the input has at most 20 different words
  (10 different hashtags).
\<close>

theorem identify_narratives_frequencies:
  "sorted_wrt (ranked_before (all_words (data s))) (common_words (fst (identify_narratives s))) \<and>
   sorted_wrt (ranked_before (all_hashtags (data s))) (common_hashtags (fst (identify_narratives s))) \<and>
   (\<forall>b \<in> set (common_words (fst (identify_narratives s))).
      snd b = int (count_list (all_words (data s)) (fst b))) \<and>
   (\<forall>b \<in> set (common_hashtags (fst (identify_narratives s))).
      snd b = int (count_list (all_hashtags (data s)) (fst b))) \<and>
   length (common_words (fst (identify_narratives s))) \<le> 20 \<and>
   length (common_hashtags (fst (identify_narratives s))) \<le> 10 \<and>
   sum_list (map snd (common_words (fst (identify_narratives s)))) \<le> int (length (all_words (data s))) \<and>
   sum_list (map snd (common_hashtags (fst (identify_narratives s)))) \<le> int (length (all_hashtags (data s))) \<and>
   (card (set (all_words (data s))) \<le> 20 \<longrightarrow>
      sum_list (map snd (common_words (fst (identify_narratives s)))) = int (length (all_words (data s)))) \<and>
   (card (set (all_hashtags (data s))) \<le> 10 \<longrightarrow>
      sum_list (map snd (common_hashtags (fst (identify_narratives s)))) = int (length (all_hashtags (data s))))"
proof -
  have w: "common_words (fst (identify_narratives s)) = most_common 20 (counter (all_words (data s)))"
    and h: "common_hashtags (fst (identify_narratives s)) = most_common 10 (counter (all_hashtags (data s)))"
    by (simp_all add: identify_narratives_def Let_def)
  have bins: "\<forall>b \<in> set (most_common n (counter xs)). snd b = int (count_list xs (fst b))" for n and xs :: "string list"
    using most_common_bins[of _ _ n xs] by auto
  have len: "length (most_common n c) \<le> n" for n and c :: "(string \<times> int) list"
    by (simp add: most_common_def)
  show ?thesis
    unfolding w h
    using most_common_ranked most_common_sum_le most_common_sum_all bins len by blast
qed

theorem identify_narratives_frequencies_witness:
  "common_words (fst (identify_narratives
      \<lparr>data = [sample_post ''a'' ''Fake news, FAKE cure'' [''#x'', ''#y''], sample_post ''b'' ''cure news'' [''#y'']],
       network = []\<rparr>)) = [(''fake'', 2), (''news'', 2), (''cure'', 2)] \<and>
   common_hashtags (fst (identify_narratives
      \<lparr>data = [sample_post ''a'' ''Fake news, FAKE cure'' [''#x'', ''#y''], sample_post ''b'' ''cure news'' [''#y'']],
       network = []\<rparr>)) = [(''#y'', 2), (''#x'', 1)] \<and>
   sum_list (map snd (common_words (fst (identify_narratives
      \<lparr>data = [sample_post ''a'' ''Fake news, FAKE cure'' [''#x'', ''#y''], sample_post ''b'' ''cure news'' [''#y'']],
       network = []\<rparr>)))) = 6"
proof -
  let ?s = "\<lparr>data = [sample_post ''a'' ''Fake news, FAKE cure'' [''#x'', ''#y''], sample_post ''b'' ''cure news'' [''#y'']],
       network = []\<rparr>"
  have v: "fst (identify_narratives ?s) =
      \<lparr>common_words = [(''fake'', 2), (''news'', 2), (''cure'', 2)], common_hashtags = [(''#y'', 2), (''#x'', 1)]\<rparr>"
    by code_simp
  show ?thesis using identify_narratives_frequencies [of ?s] by (simp add: v)
qed

text \<open>
  With eleven different hashtags the ten returned bins do not sum to the eleven
  occurrences of the input.
\<close>

theorem identify_narratives_sum_counterexample:
  "sum_list (map snd (common_hashtags (fst (identify_narratives
      \<lparr>data = [sample_post ''a'' ''x''
         [''#a'', ''#b'', ''#c'', ''#d'', ''#e'', ''#f'', ''#g'', ''#h'', ''#i'', ''#j'', ''#k'']],
       network = []\<rparr>)))) = 10 \<and>
   length (all_hashtags (data
      \<lparr>data = [sample_post ''a'' ''x''
         [''#a'', ''#b'', ''#c'', ''#d'', ''#e'', ''#f'', ''#g'', ''#h'', ''#i'', ''#j'', ''#k'']],
       network = []\<rparr>)) = 11"
  by (simp add: identify_narratives_def sample_post_def all_hashtags_def counter_def most_common_def sorted_reverse_def)

section \<open>Graph metrics\<close>

lemma simple_graph_empty: "simple_graph []"
  by (simp add: simple_graph_def nodes_def)

lemma simple_graph_add_node: "simple_graph g \<Longrightarrow> simple_graph (add_node n g)"
  by (auto simp: simple_graph_def add_node_def nodes_def)

lemma set_add_neighbour:
  "e \<in> set (add_neighbour u v g) \<Longrightarrow>
   \<exists>ns. (fst e, ns) \<in> set g \<and> (snd e = ns \<or> (fst e = u \<and> v \<notin> set ns \<and> snd e = ns @ [v]))"
  by (auto simp: add_neighbour_def split: if_splits)

lemma simple_graph_add_neighbour:
  assumes "simple_graph g" and "v \<in> set (nodes g)" and "u \<noteq> v"
  shows "simple_graph (add_neighbour u v g)"
  unfolding simple_graph_def
proof (intro conjI ballI)
  show "distinct (nodes (add_neighbour u v g))"
    using assms(1) by (simp add: nodes_add_neighbour simple_graph_def)
next
  fix e assume "e \<in> set (add_neighbour u v g)"
  then obtain ns where m: "(fst e, ns) \<in> set g"
    and c: "snd e = ns \<or> (fst e = u \<and> v \<notin> set ns \<and> snd e = ns @ [v])"
    using set_add_neighbour by blast
  from m assms(1) have ok: "distinct ns \<and> fst e \<notin> set ns \<and> set ns \<subseteq> set (nodes g)"
    by (force simp: simple_graph_def)
  from c ok assms(2,3) show "distinct (snd e)" by auto
  from c ok assms(2,3) show "fst e \<notin> set (snd e)" by auto
  from c ok assms(2,3) show "set (snd e) \<subseteq> set (nodes (add_neighbour u v g))"
    by (auto simp: nodes_add_neighbour)
qed

lemma simple_graph_add_edge:
  assumes "simple_graph g" and "u \<noteq> v"
  shows "simple_graph (add_edge u v g)"
proof -
  let ?g = "add_node v (add_node u g)"
  have s: "simple_graph ?g" using assms(1) by (simp add: simple_graph_add_node)
  have u: "u \<in> set (nodes ?g)" and v: "v \<in> set (nodes ?g)" by (simp_all add: nodes_add_node)
  have s1: "simple_graph (add_neighbour u v ?g)"
    using s v assms(2) by (rule simple_graph_add_neighbour)
  have u1: "u \<in> set (nodes (add_neighbour u v ?g))" using u by (simp add: nodes_add_neighbour)
  have vu: "v \<noteq> u" using assms(2) by simp
  show ?thesis unfolding add_edge_def using s1 u1 vu by (rule simple_graph_add_neighbour)
qed

lemma simple_graph_connect:
  "simple_graph g \<Longrightarrow> (p \<noteq> q \<and> common_tags p q \<noteq> {} \<longrightarrow> user p \<noteq> user q) \<Longrightarrow>
   simple_graph (connect p q g)"
  by (simp add: connect_def simple_graph_add_edge)

lemma simple_graph_fold_connect:
  "simple_graph g \<Longrightarrow> \<forall>q \<in> set qs. p \<noteq> q \<and> common_tags p q \<noteq> {} \<longrightarrow> user p \<noteq> user q \<Longrightarrow>
   simple_graph (fold (connect p) qs g)"
  by (induction qs arbitrary: g) (simp_all add: simple_graph_connect)

lemma simple_graph_fold_visit:
  "simple_graph g \<Longrightarrow>
   \<forall>p \<in> set qs. \<forall>q \<in> set ps. p \<noteq> q \<and> common_tags p q \<noteq> {} \<longrightarrow> user p \<noteq> user q \<Longrightarrow>
   simple_graph (fold (visit ps) qs g)"
proof (induction qs arbitrary: g)
  case Nil then show ?case by simp
next
  case (Cons r qs)
  have "simple_graph (visit ps r g)"
    unfolding visit_def using Cons.prems
    by (intro simple_graph_fold_connect simple_graph_add_node) auto
  then show ?case using Cons.prems by (simp add: Cons.IH)
qed

lemma simple_graph_build_network:
  "simple_graph g \<Longrightarrow> no_shared_tags_within_author ps \<Longrightarrow> simple_graph (build_network ps g)"
  unfolding build_network_def no_shared_tags_within_author_def by (rule simple_graph_fold_visit)

lemma simple_graph_degree:
  assumes "simple_graph g" and "e \<in> set g"
  shows "degree_of e \<le> length g - 1"
proof -
  from assms have d: "distinct (snd e)" and n: "fst e \<notin> set (snd e)"
    and s: "set (snd e) \<subseteq> set (nodes g)" and dn: "distinct (nodes g)"
    by (auto simp: simple_graph_def)
  from assms(2) have m: "fst e \<in> set (nodes g)" by (simp add: nodes_def)
  have "set (snd e) \<subseteq> set (nodes g) - {fst e}" using s n by auto
  then have "card (set (snd e)) \<le> card (set (nodes g) - {fst e})"
    by (intro card_mono) auto
  also have "\<dots> = card (set (nodes g)) - 1" using m by simp
  also have "\<dots> = length g - 1" using distinct_card[OF dn] by (simp add: nodes_def)
  finally show ?thesis using d n by (simp add: degree_of_def distinct_card)
qed

lemma sum_degree_bound:
  "\<forall>e \<in> set es. degree_of e \<le> k \<Longrightarrow> sum_list (map degree_of es) \<le> length es * k"
  by (induction es) auto

lemma centrality_nonneg: "(n, c) \<in> set (degree_centrality g) \<Longrightarrow> 0 \<le> c"
  by (auto simp: degree_centrality_def Let_def split: if_splits)

lemma centrality_le_one:
  assumes "simple_graph g" and "(n, c) \<in> set (degree_centrality g)"
  shows "c \<le> 1"
proof (cases "length g \<le> 1")
  case True
  with assms(2) show ?thesis by (auto simp: degree_centrality_def)
next
  case False
  with assms(2) obtain e where e: "e \<in> set g" and c: "c = of_nat (degree_of e) * (1 / (of_nat (length g) - 1))"
    by (auto simp: degree_centrality_def Let_def)
  from simple_graph_degree[OF assms(1) e] have "(of_nat (degree_of e) :: rat) \<le> of_nat (length g - 1)"
    by (simp only: of_nat_le_iff)
  also have "\<dots> = of_nat (length g) - 1" using False by (simp add: of_nat_diff)
  finally have "(of_nat (degree_of e) :: rat) \<le> of_nat (length g) - 1" .
  moreover have "(0::rat) < of_nat (length g) - 1" using False by simp
  ultimately show ?thesis unfolding c by (simp add: divide_le_eq)
qed

lemma density_nonneg: "0 \<le> graph_density g"
  by (simp add: graph_density_def Let_def)

lemma density_le_one:
  assumes "simple_graph g"
  shows "graph_density g \<le> 1"
proof (cases "number_of_edges g = 0 \<or> length g \<le> 1")
  case True
  then show ?thesis by (auto simp: graph_density_def Let_def)
next
  case False
  then have n: "2 \<le> length g" by simp
  have "sum_list (map degree_of g) \<le> length g * (length g - 1)"
    using simple_graph_degree[OF assms] by (intro sum_degree_bound) simp
  then have "number_of_edges g * 2 \<le> length g * (length g - 1)"
    unfolding number_of_edges_def by simp
  then have "(of_nat (number_of_edges g * 2) :: rat) \<le> of_nat (length g * (length g - 1))"
    by (simp only: of_nat_le_iff)
  then have le: "(of_nat (number_of_edges g) :: rat) * 2 \<le> of_nat (length g) * (of_nat (length g) - 1)"
    using n by (simp add: of_nat_diff)
  have "(0::rat) < of_nat (length g)" and "(0::rat) < of_nat (length g) - 1" using n by auto
  then have pos: "(0::rat) < of_nat (length g) * (of_nat (length g) - 1)" by (rule mult_pos_pos)
  have "graph_density g = (of_nat (number_of_edges g) * 2) / (of_nat (length g) * (of_nat (length g) - 1))"
    using False by (simp add: graph_density_def Let_def)
  also have "\<dots> \<le> 1" using le pos by (simp add: divide_le_eq)
  finally show ?thesis .
qed

lemma central_nodes_subset:
  "set (take k (sorted_reverse snd cs)) \<subseteq> set cs"
  by (auto simp: sorted_reverse_def dest: in_set_takeD)

lemma distinct_nodes_add_node: "distinct (nodes g) \<Longrightarrow> distinct (nodes (add_node u g))"
  by (auto simp: add_node_def nodes_def)

lemma distinct_nodes_add_edge: "distinct (nodes g) \<Longrightarrow> distinct (nodes (add_edge u v g))"
  by (simp add: add_edge_def nodes_add_neighbour distinct_nodes_add_node)

lemma distinct_nodes_fold_connect: "distinct (nodes g) \<Longrightarrow> distinct (nodes (fold (connect p) qs g))"
  by (induction qs arbitrary: g) (simp_all add: connect_def distinct_nodes_add_edge)

lemma distinct_nodes_fold_visit: "distinct (nodes g) \<Longrightarrow> distinct (nodes (fold (visit ps) qs g))"
  by (induction qs arbitrary: g) (simp_all add: visit_def distinct_nodes_fold_connect distinct_nodes_add_node)

lemma distinct_nodes_build_network: "distinct (nodes g) \<Longrightarrow> distinct (nodes (build_network ps g))"
  unfolding build_network_def by (rule distinct_nodes_fold_visit)

lemma nodes_degree_centrality: "map fst (degree_centrality g) = nodes g"
  by (simp add: degree_centrality_def nodes_def Let_def comp_def)

lemma map_of_degree_centrality:
  assumes "distinct (nodes g)" and "n \<in> set (nodes g)"
  shows "map_of (degree_centrality g) n =
         Some (if length g \<le> 1 then 1 else of_nat (degree g n) / (of_nat (length g) - 1))"
proof -
  from assms(2) obtain ns where e: "(n, ns) \<in> set g" by (auto simp: nodes_def)
  with assms(1) have m: "map_of g n = Some ns" by (simp add: nodes_def)
  have d: "distinct (map fst (degree_centrality g))"
    using assms(1) by (simp add: nodes_degree_centrality)
  have "(n, if length g \<le> 1 then 1 else of_nat (degree_of (n, ns)) * (1 / (of_nat (length g) - 1)))
          \<in> set (degree_centrality g)"
    using e by (force simp: degree_centrality_def Let_def)
  with d have "map_of (degree_centrality g) n =
      Some (if length g \<le> 1 then 1 else of_nat (degree_of (n, ns)) * (1 / (of_nat (length g) - 1)))"
    by (rule map_of_is_SomeI)
  then show ?thesis by (simp add: degree_def m)
qed

text \<open>
  Claim C2, as the code has it. For every graph that \<open>analyze_network\<close> has built,
  the degree centrality computed for a node is that node's degree divided by the node
  count minus one when the graph has at least two nodes, and it is 1 for the only node
  of a graph with one node. (The graph of the tracker is a dictionary: its nodes are
  entered once.)
\<close>

theorem degree_centrality_of_built_graph:
  assumes "distinct (nodes (network s))"
    and "n \<in> set (nodes (network (snd (analyze_network gmc s))))"
  shows "map_of (degree_centrality (network (snd (analyze_network gmc s)))) n =
         Some (if length (nodes (network (snd (analyze_network gmc s)))) \<le> 1 then 1
               else of_nat (degree (network (snd (analyze_network gmc s))) n)
                    / (of_nat (length (nodes (network (snd (analyze_network gmc s))))) - 1))"
proof -
  have "distinct (nodes (network (snd (analyze_network gmc s))))"
    using assms(1) by (simp add: network_analyze_network distinct_nodes_build_network)
  from map_of_degree_centrality[OF this assms(2)] show ?thesis by (simp add: nodes_def)
qed

theorem degree_centrality_of_built_graph_witness:
  "map_of (degree_centrality (network (snd (analyze_network singleton_communities
      \<lparr>data = [sample_post ''alice'' ''x'' [''#a'', ''#b''], sample_post ''bob'' ''y'' [''#b''],
               sample_post ''carol'' ''z'' [''#c'']], network = []\<rparr>)))) ''alice'' = Some (1 / 2)"
proof -
  let ?s = "\<lparr>data = [sample_post ''alice'' ''x'' [''#a'', ''#b''], sample_post ''bob'' ''y'' [''#b''],
               sample_post ''carol'' ''z'' [''#c'']], network = []\<rparr>"
  have g: "network (snd (analyze_network singleton_communities ?s)) =
      [(''alice'', [''bob'']), (''bob'', [''alice'']), (''carol'', [])]"
    by code_simp
  have d: "distinct (nodes (network ?s))" by (simp add: nodes_def)
  have n: "''alice'' \<in> set (nodes (network (snd (analyze_network singleton_communities ?s))))"
    by (simp add: g nodes_def)
  show ?thesis
    using degree_centrality_of_built_graph [OF d n]
    by (simp add: g nodes_def degree_def degree_of_def)
qed

text \<open>
  A batch of one post gives a graph with one node, whose centrality is 1 and not 0.
\<close>

theorem degree_centrality_single_node_counterexample:
  "degree_centrality (network (snd (analyze_network singleton_communities
      \<lparr>data = [sample_post ''alice'' ''x'' [''#a'']], network = []\<rparr>))) = [(''alice'', 1)] \<and>
   fst (analyze_network singleton_communities
      \<lparr>data = [sample_post ''alice'' ''x'' [''#a'']], network = []\<rparr>) =
     Inr \<lparr>central_nodes = [(''alice'', 1)], community_count = 1, density = 0\<rparr>"
  by (simp add: analyze_network_def build_network_def visit_def connect_def add_node_def nodes_def
      degree_centrality_def sorted_reverse_def singleton_communities_def graph_density_def
      number_of_edges_def sample_post_def Let_def)

text \<open>
  Claim C6, as the code has it. For every post batch in which no two different posts
  of one author share a hashtag, analysed on a tracker whose graph has no self-loop (a
  new tracker, for one), every degree centrality value that \<open>analyze_network\<close>
  computes or returns lies between 0 and 1, and so does the returned density.
\<close>

theorem metrics_within_unit_interval:
  assumes "simple_graph (network s)" and "no_shared_tags_within_author (data s)"
    and "fst (analyze_network gmc s) = Inr r"
  shows "(\<forall>e \<in> set (central_nodes r). 0 \<le> snd e \<and> snd e \<le> 1) \<and>
         (\<forall>e \<in> set (degree_centrality (network (snd (analyze_network gmc s)))). 0 \<le> snd e \<and> snd e \<le> 1) \<and>
         0 \<le> density r \<and> density r \<le> 1"
proof -
  let ?G = "build_network (data s) (network s)"
  have sg: "simple_graph ?G" using assms(1,2) by (rule simple_graph_build_network)
  have all: "\<forall>e \<in> set (degree_centrality ?G). 0 \<le> snd e \<and> snd e \<le> 1"
    using centrality_nonneg[of _ _ ?G] centrality_le_one[OF sg] by (metis prod.collapse)
  from assms(3) have cn: "central_nodes r = take 10 (sorted_reverse snd (degree_centrality ?G))"
    and dr: "density r = graph_density ?G"
    by (auto simp: analyze_network_def Let_def split: sum.splits)
  have "set (central_nodes r) \<subseteq> set (degree_centrality ?G)"
    unfolding cn by (rule central_nodes_subset)
  with all have top: "\<forall>e \<in> set (central_nodes r). 0 \<le> snd e \<and> snd e \<le> 1" by blast
  from top all show ?thesis
    by (simp add: dr network_analyze_network density_nonneg density_le_one[OF sg])
qed

theorem metrics_within_unit_interval_witness:
  "fst (analyze_network singleton_communities
      \<lparr>data = [sample_post ''alice'' ''x'' [''#a'', ''#b''], sample_post ''bob'' ''y'' [''#b''],
               sample_post ''carol'' ''z'' [''#c'']], network = []\<rparr>) =
     Inr \<lparr>central_nodes = [(''alice'', 1 / 2), (''bob'', 1 / 2), (''carol'', 0)],
          community_count = 3, density = 1 / 3\<rparr> \<and>
   0 \<le> density \<lparr>central_nodes = [(''alice'', 1 / 2), (''bob'', 1 / 2), (''carol'', 0)],
          community_count = 3, density = 1 / 3\<rparr> \<and>
   density \<lparr>central_nodes = [(''alice'', 1 / 2), (''bob'', 1 / 2), (''carol'', 0)],
          community_count = 3, density = 1 / 3\<rparr> \<le> 1"
proof -
  let ?s = "\<lparr>data = [sample_post ''alice'' ''x'' [''#a'', ''#b''], sample_post ''bob'' ''y'' [''#b''],
               sample_post ''carol'' ''z'' [''#c'']], network = []\<rparr>"
  let ?r = "\<lparr>central_nodes = [(''alice'', 1 / 2), (''bob'', 1 / 2), (''carol'', 0)],
          community_count = 3, density = 1 / 3\<rparr>"
  have g: "network (snd (analyze_network singleton_communities ?s)) =
      [(''alice'', [''bob'']), (''bob'', [''alice'']), (''carol'', [])]"
    by code_simp
  have h1: "simple_graph (network ?s)" by (simp add: simple_graph_def nodes_def)
  have h2: "no_shared_tags_within_author (data ?s)"
    by (simp add: no_shared_tags_within_author_def sample_post_def common_tags_def)
  have h3: "fst (analyze_network singleton_communities ?s) = Inr ?r"
    using g by (simp add: analyze_network_def Let_def singleton_communities_def nodes_def
        degree_centrality_def degree_of_def sorted_reverse_def graph_density_def number_of_edges_def)
  from metrics_within_unit_interval [OF h1 h2 h3] have "0 \<le> density ?r \<and> density ?r \<le> 1"
    by blast
  with h3 show ?thesis by blast
qed

text \<open>
  Two different posts of one author that share a hashtag give that author a self-loop,
  which counts twice in the degree and once among the edges: with a third post of
  another author the centrality of the first is 3 and the density 2. (The community
  count shown is that of \<open>singleton_communities\<close>, not of the library.)
\<close>

theorem metrics_exceed_one_counterexample:
  "fst (analyze_network singleton_communities
      \<lparr>data = [sample_post ''alice'' ''x'' [''#t''], sample_post ''alice'' ''y'' [''#t''],
               sample_post ''bob'' ''z'' [''#t'']], network = []\<rparr>) =
     Inr \<lparr>central_nodes = [(''alice'', 3), (''bob'', 1)], community_count = 2, density = 2\<rparr>"
proof -
  let ?s = "\<lparr>data = [sample_post ''alice'' ''x'' [''#t''], sample_post ''alice'' ''y'' [''#t''],
               sample_post ''bob'' ''z'' [''#t'']], network = []\<rparr>"
  have g: "network (snd (analyze_network singleton_communities ?s)) =
      [(''alice'', [''alice'', ''bob'']), (''bob'', [''alice''])]"
    by code_simp
  show ?thesis
    using g by (simp add: analyze_network_def Let_def singleton_communities_def nodes_def
        degree_centrality_def degree_of_def sorted_reverse_def graph_density_def number_of_edges_def)
qed

section \<open>The graph of a tracker accumulates\<close>

text \<open>
  Claim C5, as the code has it. The graph is created empty with the tracker and
  \<open>analyze_network\<close> adds the nodes and edges of the current batch to it without
  clearing it first: the graph it analyses is the result of the builder on the current
  batch and the graph left by the earlier calls, every node and edge of which stays. On
  a tracker whose graph is still empty the analysed graph depends on the current batch
  only.
\<close>

theorem analyze_network_accumulates:
  "network (snd (analyze_network gmc s)) = build_network (data s) (network s) \<and>
   set (nodes (network s)) \<subseteq> set (nodes (network (snd (analyze_network gmc s)))) \<and>
   (\<forall>u v. has_edge u v (network s) \<longrightarrow> has_edge u v (network (snd (analyze_network gmc s)))) \<and>
   (network s = [] \<longrightarrow> network (snd (analyze_network gmc s)) = build_network (data s) [])"
  using build_network_nodes[of "network s" "data s"]
  by (simp add: network_analyze_network build_network_keeps_edges)

theorem analyze_network_accumulates_witness:
  "has_edge ''zed'' ''yan'' (network (snd (analyze_network singleton_communities
       \<lparr>data = [sample_post ''alice'' ''x'' [''#a'']], network = [(''zed'', [''yan'']), (''yan'', [''zed''])]\<rparr>))) \<and>
   ''zed'' \<in> set (nodes (network (snd (analyze_network singleton_communities
       \<lparr>data = [sample_post ''alice'' ''x'' [''#a'']], network = [(''zed'', [''yan'']), (''yan'', [''zed''])]\<rparr>)))) \<and>
   network (snd (analyze_network singleton_communities
       \<lparr>data = [sample_post ''alice'' ''x'' [''#a'']], network = []\<rparr>)) = [(''alice'', [])]"
proof -
  let ?s = "\<lparr>data = [sample_post ''alice'' ''x'' [''#a'']], network = [(''zed'', [''yan'']), (''yan'', [''zed''])]\<rparr>"
  let ?t = "\<lparr>data = [sample_post ''alice'' ''x'' [''#a'']], network = []\<rparr>"
  have e: "has_edge ''zed'' ''yan'' (network ?s)" by (simp add: has_edge_def)
  have n: "''zed'' \<in> set (nodes (network ?s))" by (simp add: nodes_def)
  have old: "has_edge ''zed'' ''yan'' (network (snd (analyze_network singleton_communities ?s))) \<and>
      ''zed'' \<in> set (nodes (network (snd (analyze_network singleton_communities ?s))))"
    using analyze_network_accumulates [of singleton_communities ?s] e n by blast
  have f: "network ?t = []" by simp
  have b: "build_network (data ?t) [] = [(''alice'', [])]"
    by (simp add: build_network_def visit_def connect_def add_node_def nodes_def sample_post_def)
  have "network (snd (analyze_network singleton_communities ?t)) = [(''alice'', [])]"
    using analyze_network_accumulates [of singleton_communities ?t] f b by simp
  with old show ?thesis by simp
qed

text \<open>
  The same batch of one post gives a graph of one node on a new tracker, and a graph of
  two connected nodes on a tracker that has analysed a batch of two posts before.
\<close>

theorem analyze_network_earlier_batch_counterexample:
  "data (collect_posts clock ''k'' ''twitter'' 1
           (snd (analyze_network singleton_communities (collect_posts clock ''k'' ''twitter'' 2 init)))) =
   data (collect_posts clock ''k'' ''twitter'' 1 init) \<and>
   network (snd (analyze_network singleton_communities (collect_posts clock ''k'' ''twitter'' 1 init))) =
     [(''user_0'', [])] \<and>
   network (snd (analyze_network singleton_communities
     (collect_posts clock ''k'' ''twitter'' 1
        (snd (analyze_network singleton_communities (collect_posts clock ''k'' ''twitter'' 2 init)))))) =
     [(''user_0'', [''user_1'']), (''user_1'', [''user_0''])]"
  by code_simp

section \<open>Reports do not depend on the clock\<close>

lemma connect_untimed:
  assumes "inj_on untimed A" and "p \<in> A" and "q \<in> A"
  shows "connect (untimed p) (untimed q) g = connect p q g"
proof -
  have "untimed p = untimed q \<longleftrightarrow> p = q" using assms by (auto dest: inj_onD)
  then show ?thesis by (simp add: connect_def common_tags_def) (simp add: untimed_def)
qed

lemma visit_untimed:
  assumes "inj_on untimed (set ps)" and "p \<in> set ps"
  shows "visit (map untimed ps) (untimed p) g = visit ps p g"
proof -
  have "fold (connect (untimed p)) (map untimed ps) g' = fold (connect p) ps g'" for g'
    unfolding fold_map
    by (rule fold_cong) (simp_all add: fun_eq_iff connect_untimed[OF assms(1) assms(2)])
  then show ?thesis by (simp add: visit_def) (simp add: untimed_def)
qed

lemma build_network_untimed:
  assumes "inj_on untimed (set ps)"
  shows "build_network (map untimed ps) g = build_network ps g"
  unfolding build_network_def fold_map
  by (rule fold_cong) (simp_all add: fun_eq_iff visit_untimed[OF assms])

lemma untimed_make_post: "untimed (make_post clk k pf i) = make_post (\<lambda>_. []) k pf i"
  by (simp add: untimed_def make_post_def)

lemma inj_on_untimed_generated: "inj_on untimed (set (map (make_post clk k pf) xs))"
proof (rule inj_onI)
  fix p q
  assume "p \<in> set (map (make_post clk k pf) xs)" and "q \<in> set (map (make_post clk k pf) xs)"
    and u: "untimed p = untimed q"
  then obtain i j where p: "p = make_post clk k pf i" and q: "q = make_post clk k pf j" by auto
  from u have "likes (engagement (untimed p)) = likes (engagement (untimed q))" by simp
  then have "i = j" by (simp add: p q untimed_def make_post_def)
  then show "p = q" by (simp add: p q)
qed

lemma all_words_untimed: "all_words (map untimed ps) = all_words ps"
  by (simp add: all_words_def untimed_def comp_def)

lemma all_hashtags_untimed: "all_hashtags (map untimed ps) = all_hashtags ps"
  by (simp add: all_hashtags_def untimed_def comp_def)

lemma generate_report_untimed:
  assumes "inj_on untimed (set (data s))"
  shows "untimed_report (fst (generate_report now gmc s)) =
         untimed_report (fst (generate_report now' gmc \<lparr>data = map untimed (data s), network = network s\<rparr>))"
    and "network (snd (generate_report now gmc s)) =
         network (snd (generate_report now' gmc \<lparr>data = map untimed (data s), network = network s\<rparr>))"
proof -
  have e: "likes (engagement (untimed p)) = likes (engagement p)"
       "shares (engagement (untimed p)) = shares (engagement p)" for p
    by (simp_all add: untimed_def)
  note facts = build_network_untimed[OF assms] all_words_untimed all_hashtags_untimed e comp_def
  show "untimed_report (fst (generate_report now gmc s)) =
         untimed_report (fst (generate_report now' gmc \<lparr>data = map untimed (data s), network = network s\<rparr>))"
    by (simp add: generate_report_def analyze_network_def identify_narratives_def analyze_engagement_def
        untimed_report_def truediv_def Let_def facts split: sum.splits)
  show "network (snd (generate_report now gmc s)) =
         network (snd (generate_report now' gmc \<lparr>data = map untimed (data s), network = network s\<rparr>))"
    by (simp add: generate_report_def analyze_network_def identify_narratives_def analyze_engagement_def
        truediv_def Let_def facts split: sum.splits)
qed

text \<open>
  Claim C10, as the code has it. For any two runs of \<open>collect_posts\<close> followed by
  \<open>generate_report\<close> with the same keywords, platform and count, on trackers whose
  graphs are equal before the run (two new trackers, for one) and with the same
  community detection, both runs fail with the same error or give reports that agree
  in every field but the report timestamp, whatever the clock shows; the graphs they
  leave are equal too.
\<close>

theorem reports_agree_up_to_timestamps:
  assumes "network s1 = network s2"
  shows "untimed_report (fst (generate_report now1 gmc (collect_posts clk1 keywords pf n s1))) =
         untimed_report (fst (generate_report now2 gmc (collect_posts clk2 keywords pf n s2))) \<and>
         network (snd (generate_report now1 gmc (collect_posts clk1 keywords pf n s1))) =
         network (snd (generate_report now2 gmc (collect_posts clk2 keywords pf n s2)))"
proof -
  let ?c = "\<lparr>data = map (make_post (\<lambda>_. []) keywords pf) (range_py n), network = network s1\<rparr>"
  have i: "inj_on untimed (set (data (collect_posts clk keywords pf n s)))" for clk s
    using inj_on_untimed_generated[of clk "keywords" pf "range_py n"] by (simp add: collect_posts_def)
  have c1: "\<lparr>data = map untimed (data (collect_posts clk1 keywords pf n s1)),
             network = network (collect_posts clk1 keywords pf n s1)\<rparr> = ?c"
    by (simp add: collect_posts_def untimed_make_post)
  have c2: "\<lparr>data = map untimed (data (collect_posts clk2 keywords pf n s2)),
             network = network (collect_posts clk2 keywords pf n s2)\<rparr> = ?c"
    using assms by (simp add: collect_posts_def untimed_make_post)
  show ?thesis
    using generate_report_untimed[OF i, of now1 gmc clk1 s1 "[]"]
      generate_report_untimed[OF i, of now2 gmc clk2 s2 "[]"]
    by (simp only: c1 c2)
qed

theorem reports_agree_up_to_timestamps_witness:
  "untimed_report (fst (generate_report ''2024-05-01T10:00:00'' singleton_communities
       (collect_posts clock ''election2024'' ''twitter'' 3 init))) =
   untimed_report (fst (generate_report ''2025-01-01T00:00:00'' singleton_communities
       (collect_posts (\<lambda>i. ''later'') ''election2024'' ''twitter'' 3
          \<lparr>data = [sample_post ''alice'' ''x'' [''#a'']], network = []\<rparr>)))"
proof -
  have h: "network init = network \<lparr>data = [sample_post ''alice'' ''x'' [''#a'']], network = []\<rparr>"
    by (simp add: init_def)
  from reports_agree_up_to_timestamps [OF h] show ?thesis by blast
qed

text \<open>
  On a tracker that has reported on two posts before, the report on one post has
  density 1; on a new tracker it has density 0.
\<close>

theorem reports_differ_after_earlier_run_counterexample:
  "map_sum id (\<lambda>r. density (network_analysis r))
     (fst (generate_report ''t'' singleton_communities (collect_posts clock ''k'' ''twitter'' 1 init))) = Inr 0 \<and>
   map_sum id (\<lambda>r. density (network_analysis r))
     (fst (generate_report ''t'' singleton_communities
        (collect_posts clock ''k'' ''twitter'' 1
          (snd (generate_report ''t'' singleton_communities (collect_posts clock ''k'' ''twitter'' 2 init)))))) = Inr 1"
  by code_simp

end
